theory Spec2Isabelle
  imports Complex_Main
begin

section \<open>Tables, errors and the library operations used by train.py\<close>

text \<open>
  Every exception that train.py or one of the library calls it makes can raise is a value
  of \<open>error\<close>; a function that can raise returns \<open>error + 'a\<close> with \<open>Inl\<close> the exception.
\<close>

datatype error = IndexError | ValueError | FileNotFoundError

text \<open>
  A submission table (the pandas DataFrame read from submission.csv) has the two columns
  \<open>id\<close> and \<open>prediction\<close>. It is modelled as the list of its rows in row order, so that
  both columns have the same length by construction, as in a DataFrame. The type of the
  ids is left open.
\<close>

record 'i row =
  row_id :: 'i
  prediction :: int

type_synonym 'i submission = "'i row list"

text \<open>
  The operations of pandas that \<open>most_frequent_prediction\<close> calls are library code and not
  part of the repository; each is modelled next to the call it stands for.
\<close>

text \<open>
  Modelled from the spec: \<open>pd.DataFrame(results)\<close> of pandas for a dict
  \<open>{0: column 0, 1: column 1, ...}\<close> of lists. It raises ValueError unless all the lists
  have the same length; otherwise the frame has one row per list position and one column
  per key. The frame is given by its rows.
\<close>

definition DataFrame :: "int list list \<Rightarrow> error + int list list" where
  "DataFrame columns =
     (case columns of
        [] \<Rightarrow> Inr []
      | c # cs \<Rightarrow>
          if list_all (\<lambda>d. length d = length c) cs
          then Inr (map (\<lambda>i. map (\<lambda>col. col ! i) columns) [0..<length c])
          else Inl ValueError)"

text \<open>
  Modelled from the spec: the mode computation of pandas (\<open>Series.mode\<close>), whose source is
  not part of the repository. It returns the values that occur most often, sorted in
  ascending order (the spec: "most frequent predicted class", ties resolved to "the
  numerically smallest class value").
\<close>

definition mode_values :: "int list \<Rightarrow> int list" where
  "mode_values xs =
     (if xs = [] then []
      else let top = Max (set (map (count_list xs) xs))
           in sort (remdups (filter (\<lambda>x. count_list xs x = top) xs)))"

text \<open>
  Modelled from the spec: \<open>frame.mode(axis=1)[0]\<close> of pandas, column 0 of the frame of
  row-wise modes, that is the first (smallest) mode of each row; a row without a mode has
  NaN there (\<open>None\<close>).
\<close>

definition mode_axis1_col0 :: "int list list \<Rightarrow> int option list" where
  "mode_axis1_col0 frame =
     map (\<lambda>r. case mode_values r of [] \<Rightarrow> None | m # _ \<Rightarrow> Some m) frame"

text \<open>
  Modelled from the spec: \<open>.astype("int").to_list()\<close> of pandas; the cast raises on NaN and
  is the identity on integers.
\<close>

fun astype_int :: "int option list \<Rightarrow> error + int list" where
  "astype_int [] = Inr []"
| "astype_int (None # vs) = Inl ValueError"
| "astype_int (Some v # vs) =
     (case astype_int vs of Inl e \<Rightarrow> Inl e | Inr ws \<Rightarrow> Inr (v # ws))"

text \<open>
  Modelled from the spec: the column assignment \<open>df.prediction = values\<close> of pandas; it
  raises ValueError when the list does not have one value per row, and otherwise replaces
  the column and leaves the ids as they are.
\<close>

definition set_prediction :: "'i submission \<Rightarrow> int list \<Rightarrow> error + 'i submission" where
  "set_prediction df vals =
     (if length vals = length df
      then Inr (map2 (\<lambda>r v. r\<lparr>prediction := v\<rparr>) df vals)
      else Inl ValueError)"

section \<open>The Prediction Aggregator\<close>

text \<open>
  \<^verbatim>\<open>
  def most_frequent_prediction(fold_submissions: list) -> pd.DataFrame:
      sample_submission = fold_submissions[0].copy()
      results = {}
      for ii, df in enumerate(fold_submissions):
          results[ii] = df.prediction.to_list()
      prediction = pd.DataFrame(results).mode(axis=1)[0].astype("int").to_list()
      sample_submission.prediction = prediction
      return sample_submission
  \<close>
\<close>

definition most_frequent_prediction :: "'i submission list \<Rightarrow> error + 'i submission" where
  "most_frequent_prediction fold_submissions =
     (case fold_submissions of
        [] \<Rightarrow> Inl IndexError
      | first # _ \<Rightarrow>
          (let sample_submission = first;
               results = map (map prediction) fold_submissions
           in case DataFrame results of
                Inl e \<Rightarrow> Inl e
              | Inr frame \<Rightarrow>
                  (case astype_int (mode_axis1_col0 frame) of
                     Inl e \<Rightarrow> Inl e
                   | Inr vals \<Rightarrow> set_prediction sample_submission vals)))"

text \<open>
  The predictions that the folds give to the row at position \<open>i\<close>: row \<open>i\<close> of the frame
  that the aggregator builds, one entry per fold, in fold order.
\<close>

definition row_predictions :: "'i submission list \<Rightarrow> nat \<Rightarrow> int list" where
  "row_predictions fold_submissions i = map (\<lambda>df. prediction (df ! i)) fold_submissions"

text \<open>
  The example of the specification: three folds over three test rows with the fold
  predictions \<open>[0,0,1]\<close>, \<open>[0,1,1]\<close> and \<open>[1,1,1]\<close>.
\<close>

definition spec_example :: "nat submission list" where
  "spec_example =
     [[\<lparr>row_id = 0, prediction = 0\<rparr>, \<lparr>row_id = 1, prediction = 0\<rparr>, \<lparr>row_id = 2, prediction = 1\<rparr>],
      [\<lparr>row_id = 0, prediction = 0\<rparr>, \<lparr>row_id = 1, prediction = 1\<rparr>, \<lparr>row_id = 2, prediction = 1\<rparr>],
      [\<lparr>row_id = 0, prediction = 1\<rparr>, \<lparr>row_id = 1, prediction = 1\<rparr>, \<lparr>row_id = 2, prediction = 1\<rparr>]]"

text \<open>
  The tie of the specification: three folds that give the single test row the three
  different classes 0, 1 and 2.
\<close>

definition tie_example :: "nat submission list" where
  "tie_example =
     [[\<lparr>row_id = 7, prediction = 0\<rparr>], [\<lparr>row_id = 7, prediction = 1\<rparr>], [\<lparr>row_id = 7, prediction = 2\<rparr>]]"

section \<open>The Prediction Aggregator on objects\<close>

text \<open>
  Python passes tables by reference, and \<open>most_frequent_prediction\<close> assigns to a column.
  To say which tables the call changes, the tables live in a heap: the list of the
  allocated tables, a reference being an index into it. \<open>df.prediction.to_list()\<close> builds a
  fresh list and shares nothing with the table; the assignment to
  \<open>sample_submission.prediction\<close> updates the table that \<open>sample_submission\<close> refers to.
\<close>

type_synonym 'i heap = "'i submission list"

text \<open>
  Modelled from the spec: \<open>df.copy()\<close> of pandas (a deep copy by default); it allocates a
  new table with the same rows and returns the reference to it.
\<close>

definition df_copy :: "'i heap \<Rightarrow> nat \<Rightarrow> nat \<times> 'i heap" where
  "df_copy h r = (length h, h @ [h ! r])"

text \<open>
  The aggregator on references: the same steps as \<open>most_frequent_prediction\<close>, on the
  tables that the references point to. It returns the heap it leaves behind, also when it
  raises.
\<close>

definition most_frequent_prediction_heap ::
  "'i heap \<Rightarrow> nat list \<Rightarrow> (error + nat) \<times> 'i heap" where
  "most_frequent_prediction_heap h fold_submissions =
     (case fold_submissions of
        [] \<Rightarrow> (Inl IndexError, h)
      | r0 # _ \<Rightarrow>
          (let (sample_submission, h1) = df_copy h r0;
               results = map (\<lambda>df. map prediction (h1 ! df)) fold_submissions
           in case DataFrame results of
                Inl e \<Rightarrow> (Inl e, h1)
              | Inr frame \<Rightarrow>
                  (case astype_int (mode_axis1_col0 frame) of
                     Inl e \<Rightarrow> (Inl e, h1)
                   | Inr vals \<Rightarrow>
                       (case set_prediction (h1 ! sample_submission) vals of
                          Inl e \<Rightarrow> (Inl e, h1)
                        | Inr t \<Rightarrow> (Inr sample_submission, h1[sample_submission := t])))))"

section \<open>The Fold Splitter\<close>

text \<open>
  \<^verbatim>\<open>
  folds = KFold(n_splits=5)
  for ii, (train_indices, val_indices) in enumerate(folds.split(train_df)):
  \<close>
  The Fold Splitter is \<open>KFold\<close> of scikit-learn, whose source is not part of the
  repository. The spec fixes that there is no shuffling and no stratification and that the
  folds follow the row order.
\<close>

text \<open>
  Modelled from the spec: the sizes of the folds of \<open>KFold\<close>, those of the library: the
  first \<open>n_samples mod n_splits\<close> folds have \<open>n_samples div n_splits + 1\<close> rows and the
  others \<open>n_samples div n_splits\<close>.
\<close>

definition fold_sizes :: "nat \<Rightarrow> nat \<Rightarrow> nat list" where
  "fold_sizes n_splits n_samples =
     map (\<lambda>i. n_samples div n_splits + (if i < n_samples mod n_splits then 1 else 0))
       [0..<n_splits]"

text \<open>
  Modelled from the spec: the test indices of the folds of \<open>KFold\<close> without shuffling, one
  slice \<open>indices[start:stop]\<close> of the row indices per fold size, each starting where the
  previous one stops.
\<close>

fun iter_test_indices :: "nat list \<Rightarrow> nat \<Rightarrow> nat list \<Rightarrow> nat list list" where
  "iter_test_indices indices current [] = []"
| "iter_test_indices indices current (fold_size # sizes) =
     (let start = current; stop = current + fold_size
      in take (stop - start) (drop start indices) # iter_test_indices indices stop sizes)"

text \<open>
  Modelled from the spec: \<open>KFold(n_splits).split(X)\<close> of scikit-learn. The constructor
  raises ValueError unless \<open>n_splits\<close> is at least 2, and \<open>split\<close> raises ValueError when there are more splits than rows. Each fold is
  the pair of the indices outside the test mask and the indices inside it, both in
  ascending order. Only the number of rows of \<open>X\<close> is used.
\<close>

definition KFold_split :: "nat \<Rightarrow> 'a list \<Rightarrow> error + (nat list \<times> nat list) list" where
  "KFold_split n_splits X =
     (let n_samples = length X; indices = [0..<n_samples]
      in if n_splits \<le> 1 then Inl ValueError
         else if n_splits > n_samples then Inl ValueError
         else Inr (map (\<lambda>test_index.
                          (filter (\<lambda>i. i \<notin> set test_index) indices,
                           filter (\<lambda>i. i \<in> set test_index) indices))
                     (iter_test_indices indices 0 (fold_sizes n_splits n_samples))))"

section \<open>The Per-Fold Trainer and its checkpoint selection\<close>

text \<open>
  \<^verbatim>\<open>
  checkpointer = ModelCheckpoint(dirpath=current_dir / "models",
                                 monitor="val/acc_epoch",
                                 mode="min",
                                 save_weights_only=True,
                                 save_top_k=1,
                                 filename=r"bert_{epoch}-{val_acc_epoch:.02f}_fold=" + str(fold_index))
  \<close>
  The configuration of the checkpoint callback, with the fields that decide which
  checkpoint is kept (the directory and the file name do not).
\<close>

datatype checkpoint_mode = ModeMin | ModeMax

record ModelCheckpoint =
  monitor :: string
  mode :: checkpoint_mode
  save_weights_only :: bool
  save_top_k :: nat

definition checkpointer :: ModelCheckpoint where
  "checkpointer =
     \<lparr>monitor = ''val/acc_epoch'', mode = ModeMin, save_weights_only = True, save_top_k = 1\<rparr>"

text \<open>
  The selection is made by the \<open>ModelCheckpoint\<close> callback of pytorch-lightning, whose
  source is not part of the repository. A checkpoint is the pair of its epoch and its
  monitored validation accuracy.
\<close>

text \<open>
  Modelled from the spec: the comparison that the callback uses for its mode, strictly
  smaller for "min" and strictly greater for "max".
\<close>

fun monitor_op :: "checkpoint_mode \<Rightarrow> rat \<Rightarrow> rat \<Rightarrow> bool" where
  "monitor_op ModeMin current best = (current < best)"
| "monitor_op ModeMax current best = (current > best)"

text \<open>
  Modelled from the spec: the step of the callback after a validation epoch. With
  \<open>save_top_k = 0\<close> nothing is kept; with \<open>save_top_k = 1\<close>, the value that train.py sets,
  the first checkpoint is kept and a later one replaces the kept one when the comparison
  of the mode prefers it. Larger values of \<open>save_top_k\<close> are not modelled.
\<close>

definition on_validation_end ::
  "ModelCheckpoint \<Rightarrow> (nat \<times> rat) option \<Rightarrow> nat \<times> rat \<Rightarrow> (nat \<times> rat) option" where
  "on_validation_end cp kept ckpt =
     (if save_top_k cp = 0 then None
      else case kept of
             None \<Rightarrow> Some ckpt
           | Some best \<Rightarrow> if monitor_op (mode cp) (snd ckpt) (snd best) then Some ckpt else Some best)"

text \<open>
  Modelled from the spec: the checkpoint that the callback holds after a run whose epochs
  0, 1, ... have the given validation accuracies.
\<close>

definition retained_checkpoint :: "ModelCheckpoint \<Rightarrow> rat list \<Rightarrow> (nat \<times> rat) option" where
  "retained_checkpoint cp val_acc = fold (\<lambda>ckpt kept. on_validation_end cp kept ckpt) (enumerate 0 val_acc) None"

section \<open>The Fold Orchestrator\<close>

text \<open>
  The state that the orchestration reads and writes: the file \<open>submission.csv\<close> of the
  working directory (absent, or holding a table), the files saved to the experiment
  tracker, and the sequence of the calls that \<open>train\<close> has made so far: to \<open>train_model\<close>
  with its fold index, to \<open>most_frequent_prediction\<close>, \<open>to_csv\<close>, \<open>wandb.init\<close>,
  \<open>wandb.save\<close>, \<open>wandb.finish\<close> and \<open>print\<close>.
\<close>

datatype call = TrainModel nat | Aggregate | ToCsv | WandbInit | WandbSave | WandbFinish | Print

record 'i world =
  submission_csv :: "'i submission option"
  uploaded :: "'i submission list"
  calls :: "call list"

type_synonym ('r, 't, 'i) trainer = "nat \<Rightarrow> 'r list \<Rightarrow> 'r list \<Rightarrow> 't list \<Rightarrow> error + 'i submission"

text \<open>
  Modelled from the spec: \<open>df.iloc[indices]\<close> of pandas, the rows at the given positions
  in the order of the positions.
\<close>

definition iloc :: "'r list \<Rightarrow> nat list \<Rightarrow> 'r list" where
  "iloc df indices = map ((!) df) indices"

text \<open>
  \<^verbatim>\<open>
  def train_model(cfg, train_data, val_data, test_data, fold_index):
      ...
      trainer.fit(model, dataloader.train_dataloader(), dataloader.val_dataloader())
      # This will generate predictions for test.csv and save them to submission.csv file
      trainer.test(model, dataloader.test_dataloader())
      wandb.finish()
      fold_submission = pd.read_csv(current_dir / "submission.csv")
      return fold_submission
  \<close>
  The model, the data loaders and the trainer are external: \<open>trainer\<close> stands for fitting
  and testing, and gives the table that testing writes to \<open>submission.csv\<close>, or the
  exception that fitting or testing raises. The function then reads the file back.
\<close>

definition train_model ::
  "('r, 't, 'i) trainer \<Rightarrow> 'r list \<Rightarrow> 'r list \<Rightarrow> 't list \<Rightarrow> nat \<Rightarrow> 'i world
     \<Rightarrow> (error + 'i submission) \<times> 'i world" where
  "train_model trainer train_data val_data test_data fold_index w =
     (case trainer fold_index train_data val_data test_data of
        Inl e \<Rightarrow> (Inl e, w)
      | Inr written \<Rightarrow>
          (let w1 = w\<lparr>submission_csv := Some written\<rparr>
           in case submission_csv w1 of
                None \<Rightarrow> (Inl FileNotFoundError, w1)
              | Some fold_submission \<Rightarrow> (Inr fold_submission, w1)))"

text \<open>
  \<^verbatim>\<open>
  predictions = []
  for ii, (train_indices, val_indices) in enumerate(folds.split(train_df)):
      train_data, val_data = train_df.iloc[train_indices], train_df.iloc[val_indices]
      test_predictions = train_model(cfg, train_data, val_data, test_df, fold_index=ii)
      predictions.append(test_predictions)
  \<close>
  The loop, as a recursion over the enumerated folds; an exception leaves the loop.
\<close>

fun run_folds ::
  "('r, 't, 'i) trainer \<Rightarrow> 'r list \<Rightarrow> 't list \<Rightarrow> (nat \<times> nat list \<times> nat list) list
     \<Rightarrow> 'i submission list \<Rightarrow> 'i world \<Rightarrow> (error + 'i submission list) \<times> 'i world" where
  "run_folds trainer train_df test_df [] predictions w = (Inr predictions, w)"
| "run_folds trainer train_df test_df ((ii, train_indices, val_indices) # rest) predictions w =
     (let train_data = iloc train_df train_indices;
          val_data = iloc train_df val_indices
      in case train_model trainer train_data val_data test_df ii (w\<lparr>calls := calls w @ [TrainModel ii]\<rparr>) of
           (Inl e, w1) \<Rightarrow> (Inl e, w1)
         | (Inr test_predictions, w1) \<Rightarrow>
             run_folds trainer train_df test_df rest (predictions @ [test_predictions]) w1)"

text \<open>
  \<^verbatim>\<open>
  folds = KFold(n_splits=5)
  predictions = [] ... (the loop)
  final_submission = most_frequent_prediction(predictions)
  final_submission.to_csv(current_dir / "submission.csv", index=False)
  wandb.init(...)
  wandb.save(current_dir / "submission.csv")
  wandb.finish()
  print("training is finished!")
  \<close>
  The two tables \<open>train_df\<close> and \<open>test_df\<close> are the tables read from train.csv and test.csv.
\<close>

definition train ::
  "('r, 't, 'i) trainer \<Rightarrow> 'r list \<Rightarrow> 't list \<Rightarrow> 'i world \<Rightarrow> (error + unit) \<times> 'i world" where
  "train trainer train_df test_df w =
     (case KFold_split 5 train_df of
        Inl e \<Rightarrow> (Inl e, w)
      | Inr folds \<Rightarrow>
          (case run_folds trainer train_df test_df (enumerate 0 folds) [] w of
             (Inl e, w1) \<Rightarrow> (Inl e, w1)
           | (Inr predictions, w1) \<Rightarrow>
               (let w2 = w1\<lparr>calls := calls w1 @ [Aggregate]\<rparr>
                in case most_frequent_prediction predictions of
                     Inl e \<Rightarrow> (Inl e, w2)
                   | Inr final_submission \<Rightarrow>
                       (let w3 = w2\<lparr>submission_csv := Some final_submission,
                                     calls := calls w2 @ [ToCsv]\<rparr>;
                            w4 = w3\<lparr>calls := calls w3 @ [WandbInit]\<rparr>;
                            w5 = (case submission_csv w4 of
                                    None \<Rightarrow> w4\<lparr>calls := calls w4 @ [WandbSave]\<rparr>
                                  | Some file \<Rightarrow> w4\<lparr>uploaded := uploaded w4 @ [file],
                                                     calls := calls w4 @ [WandbSave]\<rparr>);
                            w6 = w5\<lparr>calls := calls w5 @ [WandbFinish, Print]\<rparr>
                        in (Inr (), w6)))))"

text \<open>
  The calls of a complete run of \<open>train\<close>, in their order in the source: the Per-Fold
  Trainer for the folds 0 to 4, the aggregator, the write of the final submission, the
  upload to the tracker and the final message.
\<close>

definition train_calls :: "call list" where
  "train_calls =
     [TrainModel 0, TrainModel 1, TrainModel 2, TrainModel 3, TrainModel 4,
      Aggregate, ToCsv, WandbInit, WandbSave, WandbFinish, Print]"

text \<open>
  A trainer and an initial state on which the orchestration can be run: every fold
  predicts its own fold index for the single test row.
\<close>

definition constant_trainer :: "(unit, unit, nat) trainer" where
  "constant_trainer fold_index train_data val_data test_data =
     Inr [\<lparr>row_id = 0, prediction = int fold_index\<rparr>]"

definition empty_world :: "nat world" where
  "empty_world = \<lparr>submission_csv = None, uploaded = [], calls = []\<rparr>"

section \<open>Properties of the mode computation\<close>

lemma mode_values_set:
  assumes "xs \<noteq> []"
  shows "set (mode_values xs) = {x \<in> set xs. count_list xs x = Max (set (map (count_list xs) xs))}"
  using assms by (simp add: mode_values_def Let_def)

lemma count_le_top:
  "count_list xs y \<le> Max (set (map (count_list xs) xs))"
proof (cases "y \<in> set xs")
  case True
  then show ?thesis by (intro Max_ge) auto
next
  case False
  then show ?thesis by simp
qed

lemma top_attained:
  assumes "xs \<noteq> []"
  shows "\<exists>x \<in> set xs. count_list xs x = Max (set (map (count_list xs) xs))"
proof -
  have "Max (set (map (count_list xs) xs)) \<in> set (map (count_list xs) xs)"
    using assms by (intro Max_in) auto
  then show ?thesis by auto
qed

lemma mode_values_sorted: "sorted (mode_values xs)"
  by (simp add: mode_values_def Let_def)

lemma mode_values_first:
  assumes "xs \<noteq> []"
  shows "\<exists>m ms. mode_values xs = m # ms \<and> m \<in> set xs
           \<and> (\<forall>y. count_list xs y \<le> count_list xs m)
           \<and> (\<forall>y. count_list xs y = count_list xs m \<longrightarrow> m \<le> y)"
proof -
  let ?top = "Max (set (map (count_list xs) xs))"
  from top_attained [OF assms] obtain x where x: "x \<in> set xs" "count_list xs x = ?top" by blast
  then have "x \<in> set (mode_values xs)" using assms by (simp add: mode_values_set)
  then obtain m ms where ms: "mode_values xs = m # ms" by (cases "mode_values xs") auto
  then have "m \<in> set (mode_values xs)" by simp
  then have m: "m \<in> set xs" "count_list xs m = ?top" using assms by (simp_all add: mode_values_set)
  have le: "\<forall>y. count_list xs y \<le> count_list xs m" using count_le_top [of xs] by (simp add: m(2))
  have "m \<le> y" if "count_list xs y = count_list xs m" for y
  proof -
    have "count_list xs m \<noteq> 0" using m(1) by (simp add: count_list_0_iff)
    then have "y \<in> set xs" using that count_list_0_iff [of xs y] by simp
    then have "y \<in> set (mode_values xs)" using that m assms by (simp add: mode_values_set)
    moreover have "sorted (m # ms)" using mode_values_sorted [of xs] ms by simp
    ultimately show ?thesis using ms by auto
  qed
  with ms m le show ?thesis by blast
qed

lemma DataFrame_ok:
  assumes "\<forall>d \<in> set cs. length d = length c"
  shows "DataFrame (c # cs) = Inr (map (\<lambda>i. map (\<lambda>col. col ! i) (c # cs)) [0..<length c])"
  using assms by (simp add: DataFrame_def list_all_iff)

lemma astype_int_Some: "astype_int (map Some vs) = Inr vs"
  by (induction vs) auto

lemma mode_axis1_col0_nonempty:
  assumes "\<forall>r \<in> set frame. r \<noteq> []"
  shows "mode_axis1_col0 frame = map Some (map (\<lambda>r. hd (mode_values r)) frame)"
proof -
  have "(case mode_values r of [] \<Rightarrow> None | m # _ \<Rightarrow> Some m) = Some (hd (mode_values r))"
    if "r \<noteq> []" for r
    using mode_values_first [OF that] by auto
  then show ?thesis using assms by (simp add: mode_axis1_col0_def)
qed

section \<open>Properties of the Prediction Aggregator\<close>

lemma most_frequent_prediction_eq:
  assumes "\<forall>s \<in> set rest. length s = length first"
  shows "most_frequent_prediction (first # rest) =
           Inr (map2 (\<lambda>r v. r\<lparr>prediction := v\<rparr>) first
                  (map (\<lambda>i. hd (mode_values (row_predictions (first # rest) i))) [0..<length first]))"
proof -
  let ?cols = "map (map prediction) (first # rest)"
  let ?frame = "map (\<lambda>i. map (\<lambda>col. col ! i) ?cols) [0..<length first]"
  have df: "DataFrame ?cols = Inr ?frame"
    using assms DataFrame_ok [of "map (map prediction) rest" "map prediction first"] by simp
  have ne: "\<forall>r \<in> set ?frame. r \<noteq> []" by auto
  have rows: "map (\<lambda>col. col ! i) ?cols = row_predictions (first # rest) i"
    if "i < length first" for i
    using that assms by (auto simp: row_predictions_def)
  have frame: "?frame = map (row_predictions (first # rest)) [0..<length first]"
  proof (rule map_cong [OF refl])
    fix i assume "i \<in> set [0..<length first]"
    then have "i < length first" by simp
    then show "map (\<lambda>col. col ! i) ?cols = row_predictions (first # rest) i" by (rule rows)
  qed
  have "mode_axis1_col0 ?frame = map Some (map (\<lambda>r. hd (mode_values r)) ?frame)"
    by (rule mode_axis1_col0_nonempty [OF ne])
  also have "\<dots> = map Some (map (\<lambda>i. hd (mode_values (row_predictions (first # rest) i)))
                                 [0..<length first])"
    by (subst frame) (simp only: map_map comp_def)
  finally have "astype_int (mode_axis1_col0 ?frame) =
          Inr (map (\<lambda>i. hd (mode_values (row_predictions (first # rest) i))) [0..<length first])"
    by (simp only: astype_int_Some)
  then show ?thesis
    by (simp add: most_frequent_prediction_def df set_prediction_def del: list.map)
qed


lemma same_ids_same_length:
  assumes "\<forall>df \<in> set subs. map row_id df = map row_id (hd subs)"
  shows "\<forall>df \<in> set subs. length df = length (hd subs)"
proof
  fix df assume "df \<in> set subs"
  then have "map row_id df = map row_id (hd subs)" using assms by blast
  then have "length (map row_id df) = length (map row_id (hd subs))" by (rule arg_cong)
  then show "length df = length (hd subs)" by simp
qed

lemma most_frequent_prediction_rows:
  assumes "subs \<noteq> []" and "\<forall>df \<in> set subs. length df = length (hd subs)"
  shows "\<exists>out. most_frequent_prediction subs = Inr out
           \<and> length out = length (hd subs)
           \<and> map row_id out = map row_id (hd subs)
           \<and> (\<forall>i < length out. prediction (out ! i) = hd (mode_values (row_predictions subs i)))"
proof -
  from assms(1) obtain first rest where subs: "subs = first # rest" by (cases subs) auto
  let ?vals = "map (\<lambda>i. hd (mode_values (row_predictions (first # rest) i))) [0..<length first]"
  let ?out = "map2 (\<lambda>r v. r\<lparr>prediction := v\<rparr>) first ?vals"
  have "\<forall>s \<in> set rest. length s = length first" using assms(2) subs by simp
  then have eq: "most_frequent_prediction subs = Inr ?out"
    unfolding subs by (rule most_frequent_prediction_eq)
  have len: "length ?out = length first" by simp
  have ids: "map row_id ?out = map row_id first"
    by (rule nth_equalityI) simp_all
  have "prediction (?out ! i) = hd (mode_values (row_predictions subs i))" if "i < length ?out" for i
    using that by (simp add: subs)
  with eq len ids show ?thesis unfolding subs by (intro exI [of _ ?out]) simp
qed





lemma tie_example_result:
  "most_frequent_prediction tie_example = Inr [\<lparr>row_id = 7, prediction = 0\<rparr>]"
  by code_simp



text \<open>
  Claim C5. For every non-empty list of fold submissions with the same row ids in the same
  order, the output of the aggregator has as many rows as each input table, its ids are
  the ids of the inputs in the same order, and it has one row per id whenever the inputs
  do.
\<close>

theorem aggregator_keeps_rows:
  assumes "fold_submissions \<noteq> []"
    and "\<forall>df \<in> set fold_submissions. map row_id df = map row_id (hd fold_submissions)"
  shows "\<exists>out. most_frequent_prediction fold_submissions = Inr out
           \<and> (\<forall>df \<in> set fold_submissions. length out = length df \<and> map row_id out = map row_id df)
           \<and> (distinct (map row_id (hd fold_submissions)) \<longrightarrow> distinct (map row_id out))"
proof -
  from most_frequent_prediction_rows [OF assms(1) same_ids_same_length [OF assms(2)]]
  obtain out where out: "most_frequent_prediction fold_submissions = Inr out"
    "length out = length (hd fold_submissions)"
    "map row_id out = map row_id (hd fold_submissions)"
    by blast
  have "length out = length df \<and> map row_id out = map row_id df" if "df \<in> set fold_submissions" for df
    using that out(2,3) assms(2) same_ids_same_length [OF assms(2)] by simp
  with out show ?thesis by auto
qed

theorem aggregator_keeps_rows_witness:
  "spec_example \<noteq> []
   \<and> map (map row_id) spec_example = [[0, 1, 2], [0, 1, 2], [0, 1, 2]]
   \<and> (\<exists>out. most_frequent_prediction spec_example = Inr out
         \<and> length out = 3 \<and> map row_id out = [0, 1, 2] \<and> distinct (map row_id out))"
proof -
  have h1: "spec_example \<noteq> []" by (simp add: spec_example_def)
  have h2: "\<forall>df \<in> set spec_example. map row_id df = map row_id (hd spec_example)"
    by (simp add: spec_example_def)
  have h3: "map (map row_id) spec_example = [[0, 1, 2], [0, 1, 2], [0, 1, 2]]"
    by (simp add: spec_example_def)
  have hd: "map row_id (hd spec_example) = [0, 1, 2]" "hd spec_example \<in> set spec_example"
    by (simp_all add: spec_example_def)
  from aggregator_keeps_rows [OF h1 h2]
  obtain out where out: "most_frequent_prediction spec_example = Inr out"
    "\<forall>df \<in> set spec_example. length out = length df \<and> map row_id out = map row_id df"
    "distinct (map row_id (hd spec_example)) \<longrightarrow> distinct (map row_id out)"
    by blast
  have ids: "map row_id out = [0, 1, 2]" using out(2) hd by metis
  then have "length (map row_id out) = 3" by simp
  then have "length out = 3" by simp
  moreover have "distinct (map row_id out)" using ids by simp
  ultimately show ?thesis using h1 h3 out(1) ids by auto
qed

text \<open>
  Claim C9. On the empty list the aggregator fails with the IndexError of
  \<open>fold_submissions[0]\<close> and returns no table; whenever it returns a table, the input
  list is not empty.
\<close>

theorem aggregator_empty_list_fails:
  "most_frequent_prediction [] = Inl IndexError
   \<and> (\<forall>out. most_frequent_prediction fold_submissions = Inr out \<longrightarrow> fold_submissions \<noteq> [])"
  by (auto simp: most_frequent_prediction_def)

theorem aggregator_empty_list_fails_witness:
  "most_frequent_prediction ([] :: nat submission list) = Inl IndexError
   \<and> most_frequent_prediction tie_example = Inr [\<lparr>row_id = 7, prediction = 0\<rparr>]
   \<and> tie_example \<noteq> []"
  using aggregator_empty_list_fails [of tie_example] tie_example_result
  by (simp add: most_frequent_prediction_def)

lemma most_frequent_prediction_heap_value:
  assumes "\<forall>r \<in> set refs. r < length h" and "refs \<noteq> []"
  shows "most_frequent_prediction_heap h refs =
           (case most_frequent_prediction (map ((!) h) refs) of
              Inl e \<Rightarrow> (Inl e, h @ [h ! hd refs])
            | Inr t \<Rightarrow> (Inr (length h), h @ [t]))"
proof -
  from assms(2) obtain r0 rest where Cons: "refs = r0 # rest" by (cases refs) auto
  define tabs where "tabs = map ((!) h) rest"
  have f1: "(h @ [h ! r0]) ! r0 = h ! r0" using assms Cons by (simp add: nth_append)
  have f2: "map (\<lambda>df. map prediction ((h @ [h ! r0]) ! df)) rest = map (map prediction) tabs"
    unfolding tabs_def map_map comp_def using assms Cons by (intro map_cong) (simp_all add: nth_append)
  have f3: "map ((!) h) refs = h ! r0 # tabs" by (simp add: Cons tabs_def)
  show ?thesis
    unfolding f3 unfolding most_frequent_prediction_heap_def df_copy_def most_frequent_prediction_def
    by (simp add: Cons Let_def f1 f2 split: sum.splits)
qed

lemma set_prediction_ids: "set_prediction df vals = Inr t \<Longrightarrow> map row_id t = map row_id df"
  by (auto simp: set_prediction_def split: if_splits intro: nth_equalityI)

lemma most_frequent_prediction_heap_grows:
  assumes "most_frequent_prediction_heap h refs = (res, h')"
  shows "length h \<le> length h' \<and> (\<forall>r < length h. h' ! r = h ! r)"
proof (cases refs)
  case Nil
  then show ?thesis using assms by (simp add: most_frequent_prediction_heap_def)
next
  case (Cons r0 rest)
  show ?thesis
    using assms unfolding Cons most_frequent_prediction_heap_def df_copy_def
    by (auto simp: Let_def nth_append split: sum.splits)
qed

lemma heap_example_run:
  "most_frequent_prediction_heap spec_example [0, 1, 2] =
     (Inr 3, spec_example @
        [[\<lparr>row_id = 0, prediction = 0\<rparr>, \<lparr>row_id = 1, prediction = 1\<rparr>, \<lparr>row_id = 2, prediction = 1\<rparr>]])"
  by code_simp

text \<open>
  Claim C10. The aggregator changes none of the tables that exist when it is called, and
  so none of its inputs, whether it returns or raises: it works on a newly allocated copy
  of the first fold submission. The table it returns is that new object, and its id
  column is the id column of the first fold submission of the list.
\<close>

theorem aggregator_copies_first:
  assumes "most_frequent_prediction_heap h fold_submissions = (res, h')"
  shows "(\<forall>r < length h. h' ! r = h ! r)
       \<and> (\<forall>out. res = Inr out \<longrightarrow>
             out = length h \<and> out < length h' \<and> fold_submissions \<noteq> []
           \<and> map row_id (h' ! out) = map row_id (h ! hd fold_submissions))"
proof (cases fold_submissions)
  case Nil
  then show ?thesis using assms by (auto simp: most_frequent_prediction_heap_def)
next
  case (Cons r0 rest)
  show ?thesis
    using assms unfolding Cons most_frequent_prediction_heap_def df_copy_def
    by (auto simp: Let_def nth_append split: sum.splits dest: set_prediction_ids)
qed

theorem aggregator_copies_first_witness:
  "most_frequent_prediction_heap spec_example [0, 1, 2] =
     (Inr 3, spec_example @
        [[\<lparr>row_id = 0, prediction = 0\<rparr>, \<lparr>row_id = 1, prediction = 1\<rparr>, \<lparr>row_id = 2, prediction = 1\<rparr>]])
   \<and> (spec_example @
        [[\<lparr>row_id = 0, prediction = 0\<rparr>, \<lparr>row_id = 1, prediction = 1\<rparr>, \<lparr>row_id = 2, prediction = 1\<rparr>]]) ! 0
       = spec_example ! 0
   \<and> map row_id ((spec_example @
        [[\<lparr>row_id = 0, prediction = 0\<rparr>, \<lparr>row_id = 1, prediction = 1\<rparr>, \<lparr>row_id = 2, prediction = 1\<rparr>]]) ! 3)
       = map row_id (spec_example ! 0)"
proof -
  let ?h' = "spec_example @
        [[\<lparr>row_id = 0, prediction = 0\<rparr>, \<lparr>row_id = 1, prediction = 1\<rparr>, \<lparr>row_id = 2::nat, prediction = 1\<rparr>]]"
  note fr = aggregator_copies_first [OF heap_example_run]
  have len: "0 < length spec_example" by (simp add: spec_example_def)
  from fr len have a: "?h' ! 0 = spec_example ! 0" by blast
  from fr have "map row_id (?h' ! 3) = map row_id (spec_example ! hd [0, 1, 2])" by blast
  then have b: "map row_id (?h' ! 3) = map row_id (spec_example ! 0)" by simp
  from heap_example_run a b show ?thesis by blast
qed

text \<open>
  Claim C7. Calling the aggregator twice in a row on the same list of fold submissions
  (references to tables that exist before the first call) gives the same outcome both
  times: either both calls raise the same error, or both return a table and the two
  tables are equal, row by row, so that they serialise to the same bytes; the second call
  leaves the table of the first call as it was.
\<close>

theorem aggregator_deterministic:
  assumes "\<forall>r \<in> set fold_submissions. r < length h"
    and "most_frequent_prediction_heap h fold_submissions = (res1, h1)"
    and "most_frequent_prediction_heap h1 fold_submissions = (res2, h2)"
  shows "(\<exists>e. res1 = Inl e \<and> res2 = Inl e)
       \<or> (\<exists>o1 o2. res1 = Inr o1 \<and> res2 = Inr o2 \<and> h2 ! o2 = h1 ! o1 \<and> h2 ! o1 = h1 ! o1)"
proof (cases fold_submissions)
  case Nil
  then show ?thesis using assms(2,3) by (auto simp: most_frequent_prediction_heap_def)
next
  case (Cons r0 rest)
  from most_frequent_prediction_heap_grows [OF assms(2)]
  have grow: "length h \<le> length h1" "\<forall>r < length h. h1 ! r = h ! r" by simp_all
  have valid1: "\<forall>r \<in> set fold_submissions. r < length h1" using assms(1) grow(1) by auto
  have same: "map ((!) h1) fold_submissions = map ((!) h) fold_submissions"
    using assms(1) grow(2) by (intro map_cong) auto
  have ne: "fold_submissions \<noteq> []" by (simp add: Cons)
  have run1: "(res1, h1) =
      (case most_frequent_prediction (map ((!) h) fold_submissions) of
         Inl e \<Rightarrow> (Inl e, h @ [h ! hd fold_submissions]) | Inr t \<Rightarrow> (Inr (length h), h @ [t]))"
    unfolding assms(2) [symmetric] by (rule most_frequent_prediction_heap_value [OF assms(1) ne])
  have run2: "(res2, h2) =
      (case most_frequent_prediction (map ((!) h) fold_submissions) of
         Inl e \<Rightarrow> (Inl e, h1 @ [h1 ! hd fold_submissions]) | Inr t \<Rightarrow> (Inr (length h1), h1 @ [t]))"
    unfolding assms(3) [symmetric] same [symmetric]
    by (rule most_frequent_prediction_heap_value [OF valid1 ne])
  show ?thesis
  proof (cases "most_frequent_prediction (map ((!) h) fold_submissions)")
    case (Inl e)
    then show ?thesis using run1 run2 by simp
  next
    case (Inr t)
    then have "res1 = Inr (length h)" "h1 = h @ [t]" "res2 = Inr (length h1)" "h2 = h1 @ [t]"
      using run1 run2 by simp_all
    then show ?thesis by (simp add: nth_append)
  qed
qed

theorem aggregator_deterministic_witness:
  "(\<exists>h1 h2 o1 o2.
      most_frequent_prediction_heap spec_example [0, 1, 2] = (Inr o1, h1)
    \<and> most_frequent_prediction_heap h1 [0, 1, 2] = (Inr o2, h2)
    \<and> h2 ! o2 = h1 ! o1)"
proof -
  obtain h1 where run1: "most_frequent_prediction_heap spec_example [0, 1, 2] = (Inr 3, h1)"
    using heap_example_run by blast
  obtain res2 h2 where run2: "most_frequent_prediction_heap h1 [0, 1, 2] = (res2, h2)"
    by (cases "most_frequent_prediction_heap h1 [0, 1, 2]") blast
  have valid: "\<forall>r \<in> set [0, 1, 2]. r < length spec_example" by (simp add: spec_example_def)
  from aggregator_deterministic [OF valid run1 run2]
  obtain o2 where "res2 = Inr o2" "h2 ! o2 = h1 ! 3" by auto
  with run1 run2 show ?thesis by blast
qed

section \<open>Properties of the Fold Splitter\<close>

lemma sum_list_fold_sizes_aux:
  "sum_list (map (\<lambda>i. q + (if i < r then 1 else 0)) [0..<k]) = k * q + min r k"
  by (induction k) auto

lemma sum_list_fold_sizes:
  assumes "0 < n_splits"
  shows "sum_list (fold_sizes n_splits n_samples) = n_samples"
proof -
  have "n_samples mod n_splits < n_splits" using assms by simp
  then have "min (n_samples mod n_splits) n_splits = n_samples mod n_splits" by simp
  then show ?thesis
    unfolding fold_sizes_def sum_list_fold_sizes_aux by simp
qed

lemma length_fold_sizes: "length (fold_sizes n_splits n_samples) = n_splits"
  by (simp add: fold_sizes_def)

lemma iter_test_indices_step:
  assumes "current + fold_size \<le> n"
  shows "iter_test_indices [0..<n] current (fold_size # sizes) =
           [current..<current + fold_size] # iter_test_indices [0..<n] (current + fold_size) sizes"
  using assms by (simp add: Let_def)

lemma length_iter_test_indices:
  "length (iter_test_indices indices current sizes) = length sizes"
  by (induction sizes arbitrary: current) (simp_all add: Let_def)

lemma concat_iter_test_indices:
  assumes "current + sum_list sizes \<le> n"
  shows "concat (iter_test_indices [0..<n] current sizes) = [current..<current + sum_list sizes]"
  using assms
proof (induction sizes arbitrary: current)
  case Nil
  then show ?case by simp
next
  case (Cons s sizes)
  have step: "current + s \<le> n" using Cons.prems by simp
  have "concat (iter_test_indices [0..<n] (current + s) sizes)
          = [current + s..<current + s + sum_list sizes]"
    using Cons.prems by (intro Cons.IH) simp
  moreover have "[current..<current + s] @ [current + s..<current + s + sum_list sizes]
                   = [current..<current + s + sum_list sizes]"
    using upt_add_eq_append [of current "current + s" "sum_list sizes"] by simp
  ultimately show ?case
    unfolding iter_test_indices_step [OF step] by (simp add: add.assoc)
qed

lemma iter_test_indices_contiguous:
  assumes "current + sum_list sizes \<le> n" and "t \<in> set (iter_test_indices [0..<n] current sizes)"
  shows "\<exists>a b. t = [a..<b] \<and> b \<le> n"
  using assms
proof (induction sizes arbitrary: current)
  case Nil
  then show ?case by simp
next
  case (Cons s sizes)
  have step: "current + s \<le> n" using Cons.prems(1) by simp
  from Cons.prems(2) [unfolded iter_test_indices_step [OF step]]
  consider "t = [current..<current + s]" | "t \<in> set (iter_test_indices [0..<n] (current + s) sizes)"
    by auto
  then show ?case
  proof cases
    case 1
    then show ?thesis using step by blast
  next
    case 2
    then show ?thesis using Cons.prems(1) by (intro Cons.IH) simp_all
  qed
qed

lemma map_length_iter_test_indices:
  assumes "current + sum_list sizes \<le> n"
  shows "map length (iter_test_indices [0..<n] current sizes) = sizes"
  using assms
proof (induction sizes arbitrary: current)
  case Nil
  then show ?case by simp
next
  case (Cons s sizes)
  have step: "current + s \<le> n" using Cons.prems by simp
  have "map length (iter_test_indices [0..<n] (current + s) sizes) = sizes"
    using Cons.prems by (intro Cons.IH) simp
  then show ?case unfolding iter_test_indices_step [OF step] by simp
qed

lemma filter_mem_upt:
  assumes "b \<le> n"
  shows "filter (\<lambda>i. i \<in> set [a..<b]) [0..<n] = [a..<b]"
proof (cases "a \<le> b")
  case True
  have "[0..<n] = [0..<a] @ [a..<b] @ [b..<n]"
    using True assms by (metis le_add_diff_inverse upt_add_eq_append zero_le le_trans)
  then show ?thesis by simp
next
  case False
  then show ?thesis by simp
qed

lemma distinct_concat_nth_disjoint:
  assumes "distinct (concat xss)" and "i < length xss" and "j < length xss" and "i \<noteq> j"
  shows "set (xss ! i) \<inter> set (xss ! j) = {}"
  using assms
proof (induction xss arbitrary: i j)
  case Nil
  then show ?case by simp
next
  case (Cons xs xss)
  have tail: "set xs \<inter> set (xss ! k) = {}" if "k < length xss" for k
    using Cons.prems(1) that by (auto dest: nth_mem)
  show ?case
  proof (cases i)
    case 0
    then obtain j' where "j = Suc j'" using Cons.prems(4) by (cases j) auto
    then show ?thesis using 0 tail [of j'] Cons.prems(3) by simp
  next
    case (Suc i')
    show ?thesis
    proof (cases j)
      case 0
      then show ?thesis using Suc tail [of i'] Cons.prems(2) by (simp add: Int_commute)
    next
      case (Suc j')
      then show ?thesis using \<open>i = Suc i'\<close> Cons.prems Cons.IH [of i' j'] by simp
    qed
  qed
qed


lemma KFold_split_length_only:
  "length X = length Y \<Longrightarrow> KFold_split n_splits X = KFold_split n_splits Y"
  by (simp add: KFold_split_def)

lemma KFold_split_folds:
  assumes "2 \<le> n_splits" and "n_splits \<le> length X"
  shows "\<exists>tests. KFold_split n_splits X =
                    Inr (map (\<lambda>t. (filter (\<lambda>i. i \<notin> set t) [0..<length X], t)) tests)
           \<and> length tests = n_splits
           \<and> concat tests = [0..<length X]
           \<and> map length tests = fold_sizes n_splits (length X)
           \<and> (\<forall>t \<in> set tests. \<exists>a b. t = [a..<b] \<and> b \<le> length X)"
proof -
  let ?n = "length X"
  let ?sizes = "fold_sizes n_splits ?n"
  let ?tests = "iter_test_indices [0..<?n] 0 ?sizes"
  have sum: "0 + sum_list ?sizes \<le> ?n" using sum_list_fold_sizes [of n_splits ?n] assms(1) by simp
  have contiguous: "\<exists>a b. t = [a..<b] \<and> b \<le> ?n" if "t \<in> set ?tests" for t
    using iter_test_indices_contiguous [OF sum that] .
  have "map (\<lambda>t. (filter (\<lambda>i. i \<notin> set t) [0..<?n], filter (\<lambda>i. i \<in> set t) [0..<?n])) ?tests
          = map (\<lambda>t. (filter (\<lambda>i. i \<notin> set t) [0..<?n], t)) ?tests"
  proof (rule map_cong [OF refl])
    fix t assume "t \<in> set ?tests"
    from contiguous [OF this] obtain a b where "t = [a..<b]" "b \<le> ?n" by blast
    then show "(filter (\<lambda>i. i \<notin> set t) [0..<?n], filter (\<lambda>i. i \<in> set t) [0..<?n])
                 = (filter (\<lambda>i. i \<notin> set t) [0..<?n], t)"
      using filter_mem_upt [of b ?n a] by simp
  qed
  then have "KFold_split n_splits X = Inr (map (\<lambda>t. (filter (\<lambda>i. i \<notin> set t) [0..<?n], t)) ?tests)"
    using assms by (simp add: KFold_split_def Let_def)
  moreover have "length ?tests = n_splits"
    by (simp add: length_iter_test_indices length_fold_sizes)
  moreover have "concat ?tests = [0..<?n]"
    using concat_iter_test_indices [OF sum] sum_list_fold_sizes [of n_splits ?n] assms(1) by simp
  moreover have "map length ?tests = ?sizes"
    by (rule map_length_iter_test_indices [OF sum])
  ultimately show ?thesis using contiguous by blast
qed

lemma KFold_split_ten_rows:
  "KFold_split 5 (replicate 10 ()) =
     Inr [([2, 3, 4, 5, 6, 7, 8, 9], [0, 1]),
          ([0, 1, 4, 5, 6, 7, 8, 9], [2, 3]),
          ([0, 1, 2, 3, 6, 7, 8, 9], [4, 5]),
          ([0, 1, 2, 3, 4, 5, 8, 9], [6, 7]),
          ([0, 1, 2, 3, 4, 5, 6, 7], [8, 9])]"
  by code_simp

text \<open>
  Claim C2, amended. For every fold count \<open>K\<close> of at least 2 (train.py uses 5) and every
  table of \<open>N\<close> rows with \<open>N \<ge> K\<close>, the splitter returns \<open>K\<close> pairs of train and validation
  indices such that the validation sets together are all the row indices \<open>0..N-1\<close>, any two
  of them are disjoint, every row index lies in exactly one validation set, and the train
  indices of each fold are exactly the row indices outside its validation set.
\<close>

theorem fold_splitter_partition:
  assumes "2 \<le> K" and "K \<le> length X"
  shows "\<exists>folds. KFold_split K X = Inr folds \<and> length folds = K
           \<and> (\<Union>k \<in> {0..<K}. set (snd (folds ! k))) = {0..<length X}
           \<and> (\<forall>i < K. \<forall>j < K. i \<noteq> j \<longrightarrow> set (snd (folds ! i)) \<inter> set (snd (folds ! j)) = {})
           \<and> (\<forall>r < length X. \<exists>!k. k < K \<and> r \<in> set (snd (folds ! k)))
           \<and> (\<forall>k < K. set (fst (folds ! k)) = {0..<length X} - set (snd (folds ! k))
                     \<and> distinct (fst (folds ! k)) \<and> distinct (snd (folds ! k)))"
proof -
  let ?n = "length X"
  from KFold_split_folds [OF assms] obtain tests where
    split: "KFold_split K X = Inr (map (\<lambda>t. (filter (\<lambda>i. i \<notin> set t) [0..<?n], t)) tests)"
    and len: "length tests = K" and cat: "concat tests = [0..<?n]"
    by blast
  let ?folds = "map (\<lambda>t. (filter (\<lambda>i. i \<notin> set t) [0..<?n], t)) tests"
  have val: "snd (?folds ! k) = tests ! k" and tr: "fst (?folds ! k) = filter (\<lambda>i. i \<notin> set (tests ! k)) [0..<?n]"
    if "k < K" for k
    using that len by simp_all
  have dist: "distinct (concat tests)" unfolding cat by simp
  have cover: "(\<Union>k \<in> {0..<K}. set (tests ! k)) = {0..<?n}"
  proof -
    have "(!) tests ` {0..<K} = set tests"
      using nth_image [of K tests] len by simp
    then have "(\<Union>k \<in> {0..<K}. set (tests ! k)) = \<Union> (set ` set tests)"
      by (metis image_image)
    also have "\<dots> = set (concat tests)" by simp
    finally show ?thesis unfolding cat by simp
  qed
  have disj: "set (tests ! i) \<inter> set (tests ! j) = {}" if "i < K" "j < K" "i \<noteq> j" for i j
    using distinct_concat_nth_disjoint [OF dist] that len by simp
  have unique: "\<exists>!k. k < K \<and> r \<in> set (tests ! k)" if "r < ?n" for r
  proof -
    have "r \<in> (\<Union>k \<in> {0..<K}. set (tests ! k))" unfolding cover using that by simp
    then obtain k where k: "k < K" "r \<in> set (tests ! k)" by auto
    show ?thesis
    proof (rule ex1I [of _ k])
      show "k < K \<and> r \<in> set (tests ! k)" using k by simp
    next
      fix k' assume k': "k' < K \<and> r \<in> set (tests ! k')"
      show "k' = k"
      proof (rule ccontr)
        assume "k' \<noteq> k"
        then have "set (tests ! k') \<inter> set (tests ! k) = {}" using disj k(1) k' by blast
        then show False using k(2) k' by blast
      qed
    qed
  qed
  have parts: "set (fst (?folds ! k)) = {0..<?n} - set (snd (?folds ! k))
                 \<and> distinct (fst (?folds ! k)) \<and> distinct (snd (?folds ! k))" if "k < K" for k
  proof -
    have "tests ! k \<in> set tests" using that len by simp
    then have "distinct (tests ! k)" using dist by (simp add: distinct_concat_iff)
    then show ?thesis unfolding val [OF that] tr [OF that] by auto
  qed
  have "length ?folds = K" using len by simp
  moreover have "(\<Union>k \<in> {0..<K}. set (snd (?folds ! k))) = {0..<?n}"
    using cover val by simp
  moreover have "\<forall>i < K. \<forall>j < K. i \<noteq> j \<longrightarrow> set (snd (?folds ! i)) \<inter> set (snd (?folds ! j)) = {}"
    using disj val by simp
  moreover have "\<forall>r < ?n. \<exists>!k. k < K \<and> r \<in> set (snd (?folds ! k))"
  proof -
    have "(k < K \<and> r \<in> set (snd (?folds ! k))) = (k < K \<and> r \<in> set (tests ! k))" for k r
      using val [of k] by auto
    then show ?thesis using unique by simp
  qed
  ultimately show ?thesis using split parts by blast
qed


theorem fold_splitter_partition_witness:
  "(2::nat) \<le> 5 \<and> 5 \<le> length (replicate 10 ())
   \<and> (\<exists>folds. KFold_split 5 (replicate 10 ()) = Inr folds \<and> length folds = 5
         \<and> (\<Union>k \<in> {0..<5}. set (snd (folds ! k))) = {0..<length (replicate 10 ())}
         \<and> (\<forall>i < 5. \<forall>j < 5. i \<noteq> j \<longrightarrow> set (snd (folds ! i)) \<inter> set (snd (folds ! j)) = {})
         \<and> (\<forall>r < length (replicate 10 ()). \<exists>!k. k < 5 \<and> r \<in> set (snd (folds ! k)))
         \<and> (\<forall>k < 5. set (fst (folds ! k)) = {0..<length (replicate 10 ())} - set (snd (folds ! k))
                   \<and> distinct (fst (folds ! k)) \<and> distinct (snd (folds ! k))))"
proof -
  have h1: "(2::nat) \<le> 5" by simp
  have h2: "5 \<le> length (replicate 10 ())" by simp
  show ?thesis
    using h1 h2 fold_splitter_partition [OF h1 h2] by blast
qed

text \<open>
  Claim C2 as stated, for every \<open>K\<close>, fails for the fold counts 0 and 1: the splitter
  refuses them with ValueError and returns no folds, also on a table with one row, which
  has \<open>N \<ge> K\<close> for both.
\<close>

theorem fold_splitter_small_fold_counts:
  "KFold_split 0 [()] = Inl ValueError \<and> KFold_split 1 [()] = Inl ValueError"
  by (simp add: KFold_split_def)

text \<open>
  Claim C8. With five folds and at least five rows the validation sets are contiguous
  blocks of row indices which, put one after the other in fold order, are the row indices
  in their original order; the split of a table depends on nothing but its number of
  rows. Ten rows give five folds with two validation rows and eight training rows each,
  every row being a validation row exactly once.
\<close>

theorem fold_splitter_row_order:
  assumes "5 \<le> length X"
  shows "(\<exists>folds. KFold_split 5 X = Inr folds \<and> length folds = 5
            \<and> concat (map snd folds) = [0..<length X]
            \<and> (\<forall>k < 5. \<exists>a b. snd (folds ! k) = [a..<b] \<and> b \<le> length X))
       \<and> (\<forall>Y :: 'b list. length Y = length X \<longrightarrow> KFold_split 5 Y = KFold_split 5 X)
       \<and> (length X = 10 \<longrightarrow>
             KFold_split 5 X =
               Inr [([2, 3, 4, 5, 6, 7, 8, 9], [0, 1]),
                    ([0, 1, 4, 5, 6, 7, 8, 9], [2, 3]),
                    ([0, 1, 2, 3, 6, 7, 8, 9], [4, 5]),
                    ([0, 1, 2, 3, 4, 5, 8, 9], [6, 7]),
                    ([0, 1, 2, 3, 4, 5, 6, 7], [8, 9])])"
proof -
  let ?n = "length X"
  have two: "(2::nat) \<le> 5" by simp
  from KFold_split_folds [OF two assms] obtain tests where
    split: "KFold_split 5 X = Inr (map (\<lambda>t. (filter (\<lambda>i. i \<notin> set t) [0..<?n], t)) tests)"
    and len: "length tests = 5" and cat: "concat tests = [0..<?n]"
    and blocks: "\<forall>t \<in> set tests. \<exists>a b. t = [a..<b] \<and> b \<le> ?n"
    by blast
  let ?folds = "map (\<lambda>t. (filter (\<lambda>i. i \<notin> set t) [0..<?n], t)) tests"
  have snds: "map snd ?folds = tests" by (simp add: comp_def)
  have "\<exists>a b. snd (?folds ! k) = [a..<b] \<and> b \<le> ?n" if "k < 5" for k
  proof -
    have "tests ! k \<in> set tests" using that len by simp
    then show ?thesis using blocks that len by simp
  qed
  then have first: "\<exists>folds. KFold_split 5 X = Inr folds \<and> length folds = 5
            \<and> concat (map snd folds) = [0..<?n]
            \<and> (\<forall>k < 5. \<exists>a b. snd (folds ! k) = [a..<b] \<and> b \<le> ?n)"
    using split len cat snds by (intro exI [of _ ?folds]) simp
  have second: "\<forall>Y :: 'b list. length Y = ?n \<longrightarrow> KFold_split 5 Y = KFold_split 5 X"
    using KFold_split_length_only by blast
  have third: "KFold_split 5 X =
               Inr [([2, 3, 4, 5, 6, 7, 8, 9], [0, 1]),
                    ([0, 1, 4, 5, 6, 7, 8, 9], [2, 3]),
                    ([0, 1, 2, 3, 6, 7, 8, 9], [4, 5]),
                    ([0, 1, 2, 3, 4, 5, 8, 9], [6, 7]),
                    ([0, 1, 2, 3, 4, 5, 6, 7], [8, 9])]" if "?n = 10"
  proof -
    have "length X = length (replicate 10 ())" using that by simp
    then have "KFold_split 5 X = KFold_split 5 (replicate 10 ())"
      by (rule KFold_split_length_only)
    then show ?thesis by (simp only: KFold_split_ten_rows)
  qed
  from first second third show ?thesis by blast
qed

theorem fold_splitter_row_order_witness:
  "5 \<le> length (replicate 10 ())
   \<and> KFold_split 5 (replicate 10 ()) =
               Inr [([2, 3, 4, 5, 6, 7, 8, 9], [0, 1]),
                    ([0, 1, 4, 5, 6, 7, 8, 9], [2, 3]),
                    ([0, 1, 2, 3, 6, 7, 8, 9], [4, 5]),
                    ([0, 1, 2, 3, 4, 5, 8, 9], [6, 7]),
                    ([0, 1, 2, 3, 4, 5, 6, 7], [8, 9])]
   \<and> KFold_split 5 [0 ..< 10 :: nat] = KFold_split 5 (replicate 10 ())"
proof -
  have h: "5 \<le> length (replicate 10 ())" by simp
  have l: "length (replicate 10 ()) = 10" by simp
  have l': "length [0 ..< 10 :: nat] = length (replicate 10 ())" by simp
  note inst = fold_splitter_row_order [OF h, where ?'b = nat]
  from inst l have a: "KFold_split 5 (replicate 10 ()) =
               Inr [([2, 3, 4, 5, 6, 7, 8, 9], [0, 1]),
                    ([0, 1, 4, 5, 6, 7, 8, 9], [2, 3]),
                    ([0, 1, 2, 3, 6, 7, 8, 9], [4, 5]),
                    ([0, 1, 2, 3, 4, 5, 8, 9], [6, 7]),
                    ([0, 1, 2, 3, 4, 5, 6, 7], [8, 9])]" by blast
  from inst l' have b: "KFold_split 5 [0 ..< 10 :: nat] = KFold_split 5 (replicate 10 ())" by blast
  from h a b show ?thesis by blast
qed

section \<open>Checkpoint selection\<close>

text \<open>
  Claim C4 (the code departs from it). The checkpoint callback of \<open>train_model\<close> monitors
  the validation accuracy with mode "min": of two epochs with the validation accuracies
  0.5 and 0.9 it keeps the checkpoint of epoch 0 with accuracy 0.5, the lowest one; the
  same configuration with mode "max" keeps the checkpoint of epoch 1 with accuracy 0.9.
\<close>

theorem checkpointer_keeps_lowest_accuracy:
  "retained_checkpoint checkpointer [1/2, 9/10] = Some (0, 1/2)
   \<and> retained_checkpoint (checkpointer\<lparr>mode := ModeMax\<rparr>) [1/2, 9/10] = Some (1, 9/10)"
  by (simp add: retained_checkpoint_def checkpointer_def on_validation_end_def enumerate_eq_zip upt_rec)

section \<open>Properties of the Fold Orchestrator\<close>

lemma run_folds_all:
  assumes "\<forall>j < length fs.
             trainer (n + j) (iloc train_df (fst (fs ! j))) (iloc train_df (snd (fs ! j))) test_df
               = Inr (subs (n + j))"
  shows "\<exists>w'. run_folds trainer train_df test_df (enumerate n fs) predictions w
                 = (Inr (predictions @ map subs [n..<n + length fs]), w')
            \<and> uploaded w' = uploaded w
            \<and> calls w' = calls w @ map TrainModel [n..<n + length fs]
            \<and> (fs = [] \<longrightarrow> w' = w)"
  using assms
proof (induction fs arbitrary: n predictions w)
  case Nil
  then show ?case by simp
next
  case (Cons f fs)
  obtain tr va where f: "f = (tr, va)" by (cases f)
  have head: "trainer n (iloc train_df tr) (iloc train_df va) test_df = Inr (subs n)"
    using Cons.prems [rule_format, of 0] f by simp
  have tail: "\<forall>j < length fs.
             trainer (Suc n + j) (iloc train_df (fst (fs ! j))) (iloc train_df (snd (fs ! j))) test_df
               = Inr (subs (Suc n + j))"
  proof (intro allI impI)
    fix j assume "j < length fs"
    then show "trainer (Suc n + j) (iloc train_df (fst (fs ! j))) (iloc train_df (snd (fs ! j))) test_df
               = Inr (subs (Suc n + j))"
      using Cons.prems [rule_format, of "Suc j"] by simp
  qed
  let ?w1 = "w\<lparr>calls := calls w @ [TrainModel n], submission_csv := Some (subs n)\<rparr>"
  from Cons.IH [OF tail, of "predictions @ [subs n]" ?w1]
  obtain w' where w': "run_folds trainer train_df test_df (enumerate (Suc n) fs) (predictions @ [subs n]) ?w1
                 = (Inr ((predictions @ [subs n]) @ map subs [Suc n..<Suc n + length fs]), w')"
    "uploaded w' = uploaded ?w1" "calls w' = calls ?w1 @ map TrainModel [Suc n..<Suc n + length fs]"
    by blast
  have "run_folds trainer train_df test_df (enumerate n (f # fs)) predictions w
          = run_folds trainer train_df test_df (enumerate (Suc n) fs) (predictions @ [subs n]) ?w1"
    by (simp add: f train_model_def head Let_def)
  moreover have "[n..<n + length (f # fs)] = n # [Suc n..<Suc n + length fs]"
    by (simp add: upt_conv_Cons del: upt_Suc)
  ultimately show ?case using w' by (simp del: upt_Suc)
qed


lemma KFold_split_length:
  assumes "KFold_split n_splits X = Inr folds"
  shows "length folds = n_splits"
  using assms
  by (auto simp: KFold_split_def Let_def length_iter_test_indices length_fold_sizes split: if_splits)

lemma upt_five: "[0..<5] = [0, 1, 2, 3, 4::nat]"
  by code_simp

lemma five_folds_aggregate:
  "most_frequent_prediction (map (\<lambda>k. [\<lparr>row_id = 0::nat, prediction = int k\<rparr>]) [0..<5])
     = Inr [\<lparr>row_id = 0, prediction = 0\<rparr>]"
  by code_simp


lemma train_all_folds_return:
  assumes "KFold_split 5 train_df = Inr folds"
    and "\<forall>k < length folds.
           trainer k (iloc train_df (fst (folds ! k))) (iloc train_df (snd (folds ! k))) test_df
             = Inr (subs k)"
    and "most_frequent_prediction (map subs [0..<length folds]) = Inr final"
  shows "length folds = 5
       \<and> (\<exists>w'. train trainer train_df test_df w = (Inr (), w')
              \<and> submission_csv w' = Some final
              \<and> uploaded w' = uploaded w @ [final]
              \<and> calls w' = calls w @
                   [TrainModel 0, TrainModel 1, TrainModel 2, TrainModel 3, TrainModel 4,
                    Aggregate, ToCsv, WandbInit, WandbSave, WandbFinish, Print])"
proof -
  have len: "length folds = 5" using assms(1) by (rule KFold_split_length)
  have pre: "\<forall>j < length folds.
          trainer (0 + j) (iloc train_df (fst (folds ! j))) (iloc train_df (snd (folds ! j))) test_df
            = Inr (subs (0 + j))"
    using assms(2) by simp
  from run_folds_all [where fs = folds and n = 0 and trainer = trainer and train_df = train_df
      and test_df = test_df and subs = subs and predictions = "[]" and w = w, OF pre]
  obtain w1 where w1: "run_folds trainer train_df test_df (enumerate 0 folds) [] w
                         = (Inr (map subs [0..<length folds]), w1)"
    "uploaded w1 = uploaded w" "calls w1 = calls w @ map TrainModel [0..<length folds]"
    by auto
  have calls1: "calls w1 = calls w @ [TrainModel 0, TrainModel 1, TrainModel 2, TrainModel 3, TrainModel 4]"
    using w1(3) unfolding len upt_five by simp
  have agg: "most_frequent_prediction (map subs [0..<5]) = Inr final"
    using assms(3) unfolding len .
  show ?thesis
    using len by (simp add: train_def assms(1) w1(1) agg w1(2) calls1 Let_def)
qed

lemma train_model_calls:
  "calls (snd (train_model trainer train_data val_data test_data fold_index w)) = calls w"
  by (simp add: train_model_def Let_def split: sum.splits)

lemma run_folds_calls:
  "\<exists>m \<le> length fs.
     calls (snd (run_folds trainer train_df test_df (enumerate n fs) predictions w))
       = calls w @ map TrainModel [n..<n + m]
   \<and> (\<forall>ps. fst (run_folds trainer train_df test_df (enumerate n fs) predictions w) = Inr ps
           \<longrightarrow> m = length fs)"
proof (induction fs arbitrary: n predictions w)
  case Nil
  then show ?case by simp
next
  case (Cons f fs)
  obtain tr va where f: "f = (tr, va)" by (cases f)
  let ?w0 = "w\<lparr>calls := calls w @ [TrainModel n]\<rparr>"
  let ?r = "train_model trainer (iloc train_df tr) (iloc train_df va) test_df n ?w0"
  have c1: "calls (snd ?r) = calls w @ [TrainModel n]"
    by (simp add: train_model_calls)
  show ?case
  proof (cases "fst ?r")
    case (Inl e)
    then have run: "run_folds trainer train_df test_df (enumerate n (f # fs)) predictions w = (Inl e, snd ?r)"
      by (cases ?r) (simp add: f Let_def)
    have "calls (snd (run_folds trainer train_df test_df (enumerate n (f # fs)) predictions w))
                 = calls w @ map TrainModel [n..<n + 1]"
      unfolding run using c1 by simp
    moreover have "\<forall>ps. fst (run_folds trainer train_df test_df (enumerate n (f # fs)) predictions w) = Inr ps
           \<longrightarrow> 1 = length (f # fs)"
      unfolding run by simp
    moreover have "(1::nat) \<le> length (f # fs)" by simp
    ultimately show ?thesis by blast
  next
    case (Inr s)
    then have step: "run_folds trainer train_df test_df (enumerate n (f # fs)) predictions w
             = run_folds trainer train_df test_df (enumerate (Suc n) fs) (predictions @ [s]) (snd ?r)"
      by (cases ?r) (simp add: f Let_def)
    let ?rest = "run_folds trainer train_df test_df (enumerate (Suc n) fs) (predictions @ [s]) (snd ?r)"
    from Cons.IH [of "Suc n" "predictions @ [s]" "snd ?r"]
    obtain m where m: "m \<le> length fs"
      "calls (snd ?rest) = calls (snd ?r) @ map TrainModel [Suc n..<Suc n + m]"
      "\<forall>ps. fst ?rest = Inr ps \<longrightarrow> m = length fs"
      by blast
    have "[n..<n + Suc m] = n # [Suc n..<Suc n + m]"
      by (simp add: upt_conv_Cons del: upt_Suc)
    then have "calls (snd (run_folds trainer train_df test_df (enumerate n (f # fs)) predictions w))
                 = calls w @ map TrainModel [n..<n + Suc m]"
      unfolding step m(2) c1 by simp
    moreover have "\<forall>ps. fst (run_folds trainer train_df test_df (enumerate n (f # fs)) predictions w) = Inr ps
           \<longrightarrow> Suc m = length (f # fs)"
      unfolding step using m(3) by simp
    moreover have "Suc m \<le> length (f # fs)" using m(1) by simp
    ultimately show ?thesis by blast
  qed
qed

lemma take_train_calls:
  assumes "m \<le> 5"
  shows "map TrainModel [0..<m] = take m train_calls"
proof -
  let ?tail = "[Aggregate, ToCsv, WandbInit, WandbSave, WandbFinish, Print]"
  have tc: "train_calls = map TrainModel [0..<5] @ ?tail"
    by (simp add: train_calls_def upt_five)
  have len: "length (map TrainModel [0..<5]) = 5" by (simp del: upt_Suc)
  have "take m (map TrainModel [0..<5] @ ?tail) = take m (map TrainModel [0..<5])"
    unfolding take_append len using assms by simp
  also have "\<dots> = map TrainModel (take m [0..<5])" by (simp only: take_map)
  also have "take m [0..<5] = [0..<m]" using assms by (simp del: upt_Suc)
  finally show ?thesis unfolding tc by simp
qed

lemma train_calls_prefix:
  "\<exists>n. calls (snd (train trainer train_df test_df w)) = calls w @ take n train_calls"
proof (cases "KFold_split 5 train_df")
  case (Inl e)
  then have "calls (snd (train trainer train_df test_df w)) = calls w @ take 0 train_calls"
    by (simp add: train_def)
  then show ?thesis by blast
next
  case (Inr folds)
  have len: "length folds = 5" using Inr by (rule KFold_split_length)
  obtain res w1 where r: "run_folds trainer train_df test_df (enumerate 0 folds) [] w = (res, w1)"
    by (cases "run_folds trainer train_df test_df (enumerate 0 folds) [] w")
  from run_folds_calls [of folds trainer train_df test_df 0 "[]" w]
  obtain m where m: "m \<le> 5" "calls w1 = calls w @ map TrainModel [0..<m]"
    "\<forall>ps. res = Inr ps \<longrightarrow> m = 5"
    unfolding r using len by auto
  show ?thesis
  proof (cases res)
    case (Inl e)
    then have "train trainer train_df test_df w = (Inl e, w1)"
      by (simp add: train_def Inr r)
    then have "calls (snd (train trainer train_df test_df w)) = calls w @ take m train_calls"
      using m(1,2) take_train_calls by simp
    then show ?thesis by blast
  next
    case ok: (Inr predictions)
    then have "m = 5" using m(3) by blast
    then have c5: "calls w1 = calls w @ take 5 train_calls"
      using m(2) take_train_calls [of 5] by simp
    show ?thesis
    proof (cases "most_frequent_prediction predictions")
      case (Inl e)
      have "train trainer train_df test_df w = (Inl e, w1\<lparr>calls := calls w1 @ [Aggregate]\<rparr>)"
        by (simp add: train_def Inr r ok Inl Let_def)
      then have "calls (snd (train trainer train_df test_df w)) = calls w @ take 6 train_calls"
        using c5 by (simp add: train_calls_def)
      then show ?thesis by blast
    next
      case fin: (Inr final)
      have "calls (snd (train trainer train_df test_df w)) = calls w @ take 11 train_calls"
        using c5 by (simp add: train_def Inr r ok fin Let_def train_calls_def)
      then show ?thesis by blast
    qed
  qed
qed

text \<open>
  Claim C6. In every run of \<open>train\<close>, also one that an exception ends, the calls made are
  an initial part of: \<open>train_model\<close> for the folds 0, 1, 2, 3, 4 in this order, each on the
  state left by the previous one, then the aggregator once, then the write to
  submission.csv, then the upload (\<open>wandb.init\<close>, \<open>wandb.save\<close>, \<open>wandb.finish\<close>) and the
  final message. When the five calls of the Per-Fold Trainer return their fold
  submissions and the aggregator returns the final submission for them, taken in fold
  order, the run makes all of these calls, and at its end submission.csv holds the final
  submission and the tracker has received it.
\<close>

theorem orchestrator_sequence:
  "(\<exists>n. calls (snd (train trainer train_df test_df w)) = calls w @ take n train_calls)
   \<and> (\<forall>folds subs final.
         KFold_split 5 train_df = Inr folds
         \<longrightarrow> (\<forall>k < length folds.
               trainer k (iloc train_df (fst (folds ! k))) (iloc train_df (snd (folds ! k))) test_df
                 = Inr (subs k))
         \<longrightarrow> most_frequent_prediction (map subs [0..<length folds]) = Inr final
         \<longrightarrow> length folds = 5
             \<and> (\<exists>w'. train trainer train_df test_df w = (Inr (), w')
                    \<and> submission_csv w' = Some final
                    \<and> uploaded w' = uploaded w @ [final]
                    \<and> calls w' = calls w @ train_calls))"
proof (intro conjI allI impI)
  show "\<exists>n. calls (snd (train trainer train_df test_df w)) = calls w @ take n train_calls"
    by (rule train_calls_prefix)
next
  fix folds subs final
  assume h: "KFold_split 5 train_df = Inr folds"
    "\<forall>k < length folds.
       trainer k (iloc train_df (fst (folds ! k))) (iloc train_df (snd (folds ! k))) test_df
         = Inr (subs k)"
    "most_frequent_prediction (map subs [0..<length folds]) = Inr final"
  from train_all_folds_return [where trainer = trainer and subs = subs and w = w, OF h]
  show "length folds = 5" by blast
  from train_all_folds_return [where trainer = trainer and subs = subs and w = w, OF h]
  show "\<exists>w'. train trainer train_df test_df w = (Inr (), w')
                    \<and> submission_csv w' = Some final
                    \<and> uploaded w' = uploaded w @ [final]
                    \<and> calls w' = calls w @ train_calls"
    unfolding train_calls_def by blast
qed

theorem orchestrator_sequence_witness:
  "\<exists>w'. train constant_trainer (replicate 10 ()) [()] empty_world = (Inr (), w')
        \<and> submission_csv w' = Some [\<lparr>row_id = 0, prediction = 0\<rparr>]
        \<and> uploaded w' = [[\<lparr>row_id = 0, prediction = 0\<rparr>]]
        \<and> calls w' =
             [TrainModel 0, TrainModel 1, TrainModel 2, TrainModel 3, TrainModel 4,
              Aggregate, ToCsv, WandbInit, WandbSave, WandbFinish, Print]"
proof -
  let ?folds = "[([2, 3, 4, 5, 6, 7, 8, 9], [0, 1]),
          ([0, 1, 4, 5, 6, 7, 8, 9], [2, 3]),
          ([0, 1, 2, 3, 6, 7, 8, 9], [4, 5]),
          ([0, 1, 2, 3, 4, 5, 8, 9], [6, 7]),
          ([0, 1, 2, 3, 4, 5, 6, 7], [8, 9::nat])] :: (nat list \<times> nat list) list"
  let ?subs = "\<lambda>k. [\<lparr>row_id = 0::nat, prediction = int k\<rparr>]"
  have h1: "KFold_split 5 (replicate 10 ()) = Inr ?folds" by (rule KFold_split_ten_rows)
  have h2: "\<forall>k < length ?folds.
           constant_trainer k (iloc (replicate 10 ()) (fst (?folds ! k)))
             (iloc (replicate 10 ()) (snd (?folds ! k))) [()] = Inr (?subs k)"
    by (simp add: constant_trainer_def)
  have "length ?folds = 5" by simp
  then have h3: "most_frequent_prediction (map ?subs [0..<length ?folds])
                   = Inr [\<lparr>row_id = 0, prediction = 0\<rparr>]"
    by (simp only: five_folds_aggregate)
  note run = orchestrator_sequence [where trainer = constant_trainer
      and train_df = "replicate 10 ()" and test_df = "[()]" and w = empty_world,
      THEN conjunct2, rule_format, where subs = ?subs, OF h1 _ h3]
  from run h2 show ?thesis by (simp add: empty_world_def train_calls_def)
qed

end
